theory Spec2Isabelle
  imports Main
begin

section \<open>Machine integers\<close>

text \<open>
  Go's \<open>int\<close> is taken to be 64 bits wide, as on the usual platforms. It is modelled
  as a mathematical integer together with the wrap-around of the two's complement
  representation: every sum the program computes is passed through \<open>wrap\<close>.
  Comparisons are the signed ones.
\<close>

definition MaxInt :: int where
  "MaxInt = 9223372036854775807"

definition MinInt :: int where
  "MinInt = - 9223372036854775808"

definition wrap :: "int \<Rightarrow> int" where
  "wrap x = (x + 9223372036854775808) mod 18446744073709551616 - 9223372036854775808"

section \<open>Strings, \<open>strconv.Atoi\<close> and the three regular expressions\<close>

text \<open>
  A Go string is a sequence of bytes, here a \<open>string\<close> (list of 8-bit characters).
  \<open>\d\<close> is the ASCII digits, \<open>\s\<close> is tab, newline, form feed, carriage return
  and space.
\<close>

definition isDigit :: "char \<Rightarrow> bool" where
  "isDigit c = (c \<in> set ''0123456789'')"

definition isSpace :: "char \<Rightarrow> bool" where
  "isSpace c = (c \<in> set [CHR 0x09, CHR 0x0A, CHR 0x0C, CHR 0x0D, CHR 0x20])"

definition digitVal :: "char \<Rightarrow> int" where
  "digitVal c = int (of_char c) - 48"

definition digitsVal :: "string \<Rightarrow> int" where
  "digitsVal ds = foldl (\<lambda>n c. n * 10 + digitVal c) 0 ds"

text \<open>
  \<open>strconv.Atoi\<close>: an optional sign and at least one decimal digit. The result is
  the pair of the value and whether the error is nil. A syntax error gives the value 0; a
  value that does not fit gives the nearest bound of \<open>int\<close> together with a range error.
\<close>

definition Atoi :: "string \<Rightarrow> int \<times> bool" where
  "Atoi s =
     (let neg = (s \<noteq> [] \<and> hd s = CHR ''-'');
          ds = (if s \<noteq> [] \<and> (hd s = CHR ''-'' \<or> hd s = CHR ''+'') then tl s else s)
      in if ds = [] then (0, False)
         else if list_all isDigit ds then
           (if neg then
              (if digitsVal ds > 9223372036854775808 then (MinInt, False)
               else (- digitsVal ds, True))
            else
              (if digitsVal ds > MaxInt then (MaxInt, False) else (digitsVal ds, True)))
         else (0, False))"

text \<open>\<open>strings.Split(s, sep)\<close> for a separator of one byte.\<close>

fun splitOn :: "char \<Rightarrow> string \<Rightarrow> string list" where
  "splitOn sep [] = [[]]"
| "splitOn sep (c # cs) =
     (if c = sep then [] # splitOn sep cs
      else (case splitOn sep cs of [] \<Rightarrow> [[c]] | p # ps \<Rightarrow> (c # p) # ps))"

text \<open>
  \<open>matchSpaces.ReplaceAllLiteralString(s, " ")\<close> with \<open>matchSpaces = \s+\<close>: every
  maximal run of white space becomes one space. The flag says that the previous byte
  belonged to a run already replaced.
\<close>

fun collapse :: "bool \<Rightarrow> string \<Rightarrow> string" where
  "collapse inRun [] = []"
| "collapse inRun (c # cs) =
     (if isSpace c then (if inRun then collapse True cs else CHR 0x20 # collapse True cs)
      else c # collapse False cs)"

definition replaceSpaces :: "string \<Rightarrow> string" where
  "replaceSpaces s = collapse False s"

text \<open>
  \<open>matchRange = ^(\d+)-(\d+)$\<close>: the whole string is digits, a dash, digits.
  The result is the two groups.
\<close>

definition matchRange :: "string \<Rightarrow> (string \<times> string) option" where
  "matchRange s =
     (let a = takeWhile isDigit s; rest = dropWhile isDigit s
      in case rest of
           [] \<Rightarrow> None
         | c # b \<Rightarrow>
             if a \<noteq> [] \<and> c = CHR ''-'' \<and> b \<noteq> [] \<and> list_all isDigit b
             then Some (a, b) else None)"

text \<open>
  \<open>matchN = (.*)/(\d+)\<close> is not anchored and \<open>.\<close> does not match a newline. The
  leftmost match starts at the beginning of the first line that has a slash followed by a
  digit; the greedy \<open>.*\<close> then runs to the last such slash of that line, and the second
  group is the longest run of digits after it. \<open>matchN_line\<close> does this for one line
  (it prefers a match further right), \<open>matchN\<close> takes the first line that matches.
\<close>

fun matchN_line :: "string \<Rightarrow> (string \<times> string) option" where
  "matchN_line [] = None"
| "matchN_line (c # cs) =
     (case matchN_line cs of
        Some (g1, g2) \<Rightarrow> Some (c # g1, g2)
      | None \<Rightarrow>
          if c = CHR ''/'' \<and> takeWhile isDigit cs \<noteq> []
          then Some ([], takeWhile isDigit cs) else None)"

fun firstMatch :: "string list \<Rightarrow> (string \<times> string) option" where
  "firstMatch [] = None"
| "firstMatch (l # ls) =
     (case matchN_line l of Some m \<Rightarrow> Some m | None \<Rightarrow> firstMatch ls)"

definition matchN :: "string \<Rightarrow> (string \<times> string) option" where
  "matchN s = firstMatch (splitOn (CHR 0x0A) s)"

section \<open>The field parser \<open>parsePart\<close>\<close>

datatype error =
    ComponentCount
  | OutOfRange
  | UnableToParse
  | NotAFunc
  | ArgCount
  | ParamType nat
  | ParamInterface nat

text \<open>
  The map \<open>map[int]struct{}\<close> is a set of integers, \<open>r[i] = struct{}{}\<close> is
  \<open>insert i r\<close> and \<open>len(r)\<close> is \<open>card r\<close>.

  The three counting loops of \<open>parsePart\<close> may run forever, so they are partial
  functions in the option monad: \<open>None\<close> means that the loop does not return.
  \<open>incLoop\<close> is \<open>for i := lo; i <= hi; i++ { r[i] = struct{}{} }\<close> and
  \<open>stepLoop\<close> is \<open>for i := localMin; i <= localMax; i += n { r[i] = struct{}{} }\<close>.
\<close>

partial_function (option) incLoop :: "int set \<Rightarrow> int \<Rightarrow> int \<Rightarrow> int set option" where
  "incLoop r i hi = (if i \<le> hi then incLoop (insert i r) (wrap (i + 1)) hi else Some r)"

partial_function (option) stepLoop :: "int set \<Rightarrow> int \<Rightarrow> int \<Rightarrow> int \<Rightarrow> int set option" where
  "stepLoop r i localMax n =
     (if i \<le> localMax then stepLoop (insert i r) (wrap (i + n)) localMax n else Some r)"

declare incLoop.simps [code]
declare stepLoop.simps [code]

text \<open>
  The loop over the comma-separated terms of the list form. The bounds \<open>min\<close> and
  \<open>max\<close> of the source are \<open>minB\<close> and \<open>maxB\<close> here.
\<close>

fun parseTerms :: "int set \<Rightarrow> string list \<Rightarrow> int \<Rightarrow> int \<Rightarrow> (error + int set) option" where
  "parseTerms r [] minB maxB = Some (Inr r)"
| "parseTerms r (x # xs) minB maxB =
     (case matchRange x of
        Some (a, b) \<Rightarrow>
          (let localMin = fst (Atoi a); localMax = fst (Atoi b)
           in if localMin < minB \<or> localMax > maxB then Some (Inl OutOfRange)
              else (case incLoop r localMin localMax of
                      None \<Rightarrow> None
                    | Some r' \<Rightarrow> parseTerms r' xs minB maxB))
      | None \<Rightarrow>
          (if snd (Atoi x) then
             (if fst (Atoi x) < minB \<or> fst (Atoi x) > maxB then Some (Inl OutOfRange)
              else parseTerms (insert (fst (Atoi x)) r) xs minB maxB)
           else Some (Inl UnableToParse)))"

definition parsePart :: "string \<Rightarrow> int \<Rightarrow> int \<Rightarrow> (error + int set) option" where
  "parsePart s minB maxB =
     (if s = ''*'' then map_option Inr (incLoop {} minB maxB)
      else case matchN s of
        Some (m1, m2) \<Rightarrow>
          (if m1 \<noteq> [] \<and> m1 \<noteq> ''*'' then
             (case matchRange m1 of
                Some (a, b) \<Rightarrow>
                  (let localMin = fst (Atoi a); localMax = fst (Atoi b)
                   in if localMin < minB \<or> localMax > maxB then Some (Inl OutOfRange)
                      else map_option Inr (stepLoop {} localMin localMax (fst (Atoi m2))))
              | None \<Rightarrow> Some (Inl UnableToParse))
           else map_option Inr (stepLoop {} minB maxB (fst (Atoi m2))))
      | None \<Rightarrow>
          (case parseTerms {} (splitOn (CHR '','') s) minB maxB of
             None \<Rightarrow> None
           | Some (Inl e) \<Rightarrow> Some (Inl e)
           | Some (Inr r) \<Rightarrow> if card r = 0 then Some (Inl UnableToParse) else Some (Inr r)))"

section \<open>Jobs, ticks and the crontab\<close>

text \<open>
  What \<open>AddJob\<close> asks of package \<open>reflect\<close>: a type is a function type with its
  parameter types, an interface type, or any other type; an \<open>interface{}\<close> value is
  nil or a value with its dynamic type. \<open>reflect.TypeOf\<close> of nil is the nil
  \<open>Type\<close>, here \<open>None\<close>.
\<close>

datatype gotype = FuncType "gotype list" | InterfaceType string | OtherType string

datatype kind = Func | Interface | OtherKind

fun Kind :: "gotype \<Rightarrow> kind" where
  "Kind (FuncType ps) = Func"
| "Kind (InterfaceType n) = Interface"
| "Kind (OtherType n) = OtherKind"

fun NumIn :: "gotype \<Rightarrow> nat" where
  "NumIn (FuncType ps) = length ps"
| "NumIn t = 0"

fun In :: "gotype \<Rightarrow> gotype list" where
  "In (FuncType ps) = ps"
| "In t = []"

datatype goval = Nil | Val gotype

fun TypeOf :: "goval \<Rightarrow> gotype option" where
  "TypeOf Nil = None"
| "TypeOf (Val t) = Some t"

text \<open>
  The fields of \<open>job\<close> and \<open>tick\<close> carry the prefixes \<open>j_\<close> and \<open>t_\<close>, since
  both structs use the same field names.
\<close>

record job =
  j_second :: "int set"
  j_min :: "int set"
  j_hour :: "int set"
  j_day :: "int set"
  j_month :: "int set"
  j_dayOfWeek :: "int set"
  j_fn :: goval
  j_args :: "goval list"

record tick =
  t_second :: int
  t_min :: int
  t_hour :: int
  t_day :: int
  t_month :: int
  t_dayOfWeek :: int

record Crontab =
  jobs :: "job list"

text \<open>The zero value \<open>job{}\<close>: a nil map has no keys.\<close>

definition emptyJob :: job where
  "emptyJob = \<lparr>j_second = {}, j_min = {}, j_hour = {}, j_day = {}, j_month = {},
     j_dayOfWeek = {}, j_fn = Nil, j_args = []\<rparr>"

text \<open>\<open>job.tick\<close>, with its early returns in the order of the source.\<close>

definition job_tick :: "job \<Rightarrow> tick \<Rightarrow> bool" where
  "job_tick j t =
     (if t_second t \<notin> j_second j then False
      else if t_min t \<notin> j_min j then False
      else if t_hour t \<notin> j_hour j then False
      else if t_day t \<notin> j_day j \<and> t_dayOfWeek t \<notin> j_dayOfWeek j then False
      else if t_month t \<notin> j_month j then False
      else True)"

section \<open>The schedule assembler \<open>parseSchedule\<close>\<close>

text \<open>
  The result is the pair \<open>(j, err)\<close> of the source, or \<open>None\<close> when a field parser
  does not return. A failing \<open>parsePart\<close> returns a nil map, so the field it was
  assigned to stays empty and the fields parsed before it are kept.
\<close>

definition disjunctionRule :: "job \<Rightarrow> job" where
  "disjunctionRule j =
     (if card (j_day j) < 31 \<and> card (j_dayOfWeek j) = 7 then j\<lparr>j_dayOfWeek := {}\<rparr>
      else if card (j_dayOfWeek j) < 7 \<and> card (j_day j) = 31 then j\<lparr>j_day := {}\<rparr>
      else j)"

definition parseSchedule :: "string \<Rightarrow> (job \<times> error option) option" where
  "parseSchedule s =
     (let parts = splitOn (CHR 0x20) (replaceSpaces s)
      in if length parts \<noteq> 6 then Some (emptyJob, Some ComponentCount)
      else case parsePart (parts ! 0) 0 59 of
        None \<Rightarrow> None
      | Some (Inl e) \<Rightarrow> Some (emptyJob, Some e)
      | Some (Inr r0) \<Rightarrow>
      (case parsePart (parts ! 1) 0 59 of
        None \<Rightarrow> None
      | Some (Inl e) \<Rightarrow> Some (emptyJob\<lparr>j_second := r0\<rparr>, Some e)
      | Some (Inr r1) \<Rightarrow>
      (case parsePart (parts ! 2) 0 23 of
        None \<Rightarrow> None
      | Some (Inl e) \<Rightarrow> Some (emptyJob\<lparr>j_second := r0, j_min := r1\<rparr>, Some e)
      | Some (Inr r2) \<Rightarrow>
      (case parsePart (parts ! 3) 1 31 of
        None \<Rightarrow> None
      | Some (Inl e) \<Rightarrow>
          Some (emptyJob\<lparr>j_second := r0, j_min := r1, j_hour := r2\<rparr>, Some e)
      | Some (Inr r3) \<Rightarrow>
      (case parsePart (parts ! 4) 1 12 of
        None \<Rightarrow> None
      | Some (Inl e) \<Rightarrow>
          Some (emptyJob\<lparr>j_second := r0, j_min := r1, j_hour := r2, j_day := r3\<rparr>, Some e)
      | Some (Inr r4) \<Rightarrow>
      (case parsePart (parts ! 5) 0 6 of
        None \<Rightarrow> None
      | Some (Inl e) \<Rightarrow>
          Some (emptyJob\<lparr>j_second := r0, j_min := r1, j_hour := r2, j_day := r3,
                  j_month := r4\<rparr>, Some e)
      | Some (Inr r5) \<Rightarrow>
          Some (disjunctionRule
                  (emptyJob\<lparr>j_second := r0, j_min := r1, j_hour := r2, j_day := r3,
                     j_month := r4, j_dayOfWeek := r5\<rparr>), None)))))))"

section \<open>\<open>Crontab.AddJob\<close>\<close>

text \<open>
  A call either returns or panics. The loop over the parameters compares the type of each
  parameter with the dynamic type of the argument; \<open>t2.Implements(t1)\<close> on the nil
  \<open>Type\<close> of a nil argument is a nil dereference, and \<open>args[i]\<close> past the end is an
  index error. Which types implement which interfaces is the parameter \<open>impl\<close>.
\<close>

datatype 'a outcome = Returns 'a | Panics

fun checkArgs ::
  "(gotype \<Rightarrow> gotype \<Rightarrow> bool) \<Rightarrow> nat \<Rightarrow> gotype list \<Rightarrow> goval list \<Rightarrow> error option outcome" where
  "checkArgs impl i [] args = Returns None"
| "checkArgs impl i (t1 # ts) [] = Panics"
| "checkArgs impl i (t1 # ts) (a # args) =
     (if Some t1 \<noteq> TypeOf a then
        (if Kind t1 \<noteq> Interface then Returns (Some (ParamType i))
         else (case TypeOf a of
                 None \<Rightarrow> Panics
               | Some t2 \<Rightarrow>
                   if \<not> impl t2 t1 then Returns (Some (ParamInterface i))
                   else checkArgs impl (Suc i) ts args))
      else checkArgs impl (Suc i) ts args)"

text \<open>
  \<open>AddJob\<close> returns the crontab after the call together with the outcome; \<open>None\<close>
  means that the call does not return because the parser does not.
\<close>

definition AddJob ::
  "(gotype \<Rightarrow> gotype \<Rightarrow> bool) \<Rightarrow> Crontab \<Rightarrow> string \<Rightarrow> goval \<Rightarrow> goval list
     \<Rightarrow> (Crontab \<times> error option outcome) option" where
  "AddJob impl c schedule fn args =
     (case parseSchedule schedule of
        None \<Rightarrow> None
      | Some (j, Some err) \<Rightarrow> Some (c, Returns (Some err))
      | Some (j, None) \<Rightarrow>
          (case fn of
             Nil \<Rightarrow> Some (c, Returns (Some NotAFunc))
           | Val fnType \<Rightarrow>
               if Kind fnType \<noteq> Func then Some (c, Returns (Some NotAFunc))
               else if length args \<noteq> NumIn fnType then Some (c, Returns (Some ArgCount))
               else (case checkArgs impl 0 (In fnType) args of
                       Panics \<Rightarrow> Some (c, Panics)
                     | Returns (Some err) \<Rightarrow> Some (c, Returns (Some err))
                     | Returns None \<Rightarrow>
                         Some (c\<lparr>jobs := jobs c @ [j\<lparr>j_fn := fn, j_args := args\<rparr>]\<rparr>,
                               Returns None))))"

section \<open>The tick matcher\<close>

text \<open>
  C1. For every job schedule and every instant, \<open>job.tick\<close> returns true if and only if
  the second, minute, hour and month of the instant are members of the corresponding sets
  and the day of month is in the day set or the day of week is in the day-of-week set.
  In particular the result is false when one of the second, minute, hour or month sets
  is empty.
\<close>

theorem job_tick_iff:
  "(job_tick j t \<longleftrightarrow>
      (t_second t \<in> j_second j \<and> t_min t \<in> j_min j \<and> t_hour t \<in> j_hour j \<and>
       t_month t \<in> j_month j) \<and>
      (t_day t \<in> j_day j \<or> t_dayOfWeek t \<in> j_dayOfWeek j)) \<and>
   (j_second j = {} \<or> j_min j = {} \<or> j_hour j = {} \<or> j_month j = {} \<longrightarrow> \<not> job_tick j t)"
  by (auto simp: job_tick_def)

theorem job_tick_iff_witness:
  "j_month (emptyJob\<lparr>j_second := {0}, j_min := {0}, j_hour := {12}, j_day := {1}\<rparr>) = {} \<and>
   \<not> job_tick (emptyJob\<lparr>j_second := {0}, j_min := {0}, j_hour := {12}, j_day := {1}\<rparr>)
     \<lparr>t_second = 0, t_min = 0, t_hour = 12, t_day = 1, t_month = 6, t_dayOfWeek = 3\<rparr>"
  using job_tick_iff [of "emptyJob\<lparr>j_second := {0}, j_min := {0}, j_hour := {12}, j_day := {1}\<rparr>"
      "\<lparr>t_second = 0, t_min = 0, t_hour = 12, t_day = 1, t_month = 6, t_dayOfWeek = 3\<rparr>"]
  by (simp add: emptyJob_def)

section \<open>The counting loops\<close>

text \<open>
  A step loop whose counter does not move while it is within the bound never returns.
\<close>

lemma stepLoop_stuck:
  assumes "wrap (i + n) = i" and "i \<le> localMax"
  shows "stepLoop r i localMax n = None"
proof -
  have "\<not> (wrap (i + n) = i \<and> i \<le> localMax)" if "stepLoop r i localMax n = Some y" for r y
    using that
    by (rule stepLoop.raw_induct
          [where P = "\<lambda>r i localMax n y. \<not> (wrap (i + n) = i \<and> i \<le> localMax)", rotated])
       (auto split: if_splits)
  with assms show ?thesis by (cases "stepLoop r i localMax n") auto
qed

text \<open>
  As long as no addition leaves the range of \<open>int\<close>, the loops return and add exactly
  the values counted: an interval for \<open>i++\<close>, an arithmetic progression for a
  positive step.
\<close>

lemma wrap_id: "MinInt \<le> x \<Longrightarrow> x \<le> MaxInt \<Longrightarrow> wrap x = x"
  by (simp add: wrap_def MinInt_def MaxInt_def)

lemma incLoop_exact:
  assumes "MinInt \<le> i" and "hi < MaxInt"
  shows "incLoop r i hi = Some (r \<union> {i..hi})"
  using assms(1)
proof (induction "nat (hi + 1 - i)" arbitrary: r i)
  case 0
  then have "\<not> i \<le> hi" by simp
  then show ?case by (subst incLoop.simps) simp
next
  case (Suc m)
  then have le: "i \<le> hi" by simp
  with Suc.prems assms(2) have w: "wrap (i + 1) = i + 1"
    by (intro wrap_id) (simp_all add: MinInt_def)
  from Suc.hyps(2) have m: "m = nat (hi + 1 - (i + 1))" by simp
  from Suc.prems have "MinInt \<le> i + 1" by simp
  from Suc.hyps(1) [OF m this, of "insert i r"]
  have "incLoop (insert i r) (i + 1) hi = Some (insert i r \<union> {i + 1..hi})" .
  moreover from le have "insert i r \<union> {i + 1..hi} = r \<union> {i..hi}" by auto
  ultimately show ?case using le w by (subst incLoop.simps) simp
qed

lemma progression_unfold:
  assumes "0 < n" and "i \<le> hi"
  shows "{i + int k * n |k. i + int k * n \<le> hi} =
         insert i {(i + n) + int k * n |k. (i + n) + int k * n \<le> hi}" (is "?L = insert i ?R")
proof (intro set_eqI iffI)
  fix x assume "x \<in> ?L"
  then obtain k where k: "x = i + int k * n" "i + int k * n \<le> hi" by blast
  show "x \<in> insert i ?R"
  proof (cases k)
    case 0
    with k show ?thesis by simp
  next
    case (Suc k')
    with k have "x = (i + n) + int k' * n" "(i + n) + int k' * n \<le> hi"
      by (simp_all add: algebra_simps)
    then show ?thesis by blast
  qed
next
  fix x assume "x \<in> insert i ?R"
  then consider "x = i" | k where "x = (i + n) + int k * n" "(i + n) + int k * n \<le> hi"
    by blast
  then show "x \<in> ?L"
  proof cases
    case 1
    with assms(2) have "x = i + int 0 * n" "i + int 0 * n \<le> hi" by simp_all
    then show ?thesis by blast
  next
    case 2
    then have "x = i + int (Suc k) * n" "i + int (Suc k) * n \<le> hi"
      by (simp_all add: algebra_simps)
    then show ?thesis by blast
  qed
qed

lemma progression_empty:
  assumes "0 < n" and "hi < i"
  shows "{i + int k * n |k. i + int k * n \<le> hi} = {}"
proof -
  have "hi < i + int k * n" for k
  proof -
    from assms(1) have "0 \<le> int k * n" by simp
    with assms(2) show ?thesis by linarith
  qed
  then show ?thesis by (auto simp: not_le [symmetric])
qed

lemma stepLoop_exact:
  assumes "0 < n" and "hi + n \<le> MaxInt" and "MinInt \<le> i"
  shows "stepLoop r i hi n = Some (r \<union> {i + int k * n |k. i + int k * n \<le> hi})"
  using assms(3)
proof (induction "nat (hi + 1 - i)" arbitrary: r i rule: less_induct)
  case less
  show ?case
  proof (cases "i \<le> hi")
    case False
    with assms(1) have "{i + int k * n |k. i + int k * n \<le> hi} = {}"
      by (intro progression_empty) simp_all
    with False show ?thesis by (subst stepLoop.simps) simp
  next
    case True
    with assms less.prems have w: "wrap (i + n) = i + n"
      by (intro wrap_id) simp_all
    from True assms(1) have "nat (hi + 1 - (i + n)) < nat (hi + 1 - i)" by simp
    moreover from less.prems assms(1) have "MinInt \<le> i + n" by simp
    ultimately have "stepLoop (insert i r) (i + n) hi n =
        Some (insert i r \<union> {(i + n) + int k * n |k. (i + n) + int k * n \<le> hi})"
      by (rule less.hyps)
    with True w progression_unfold [OF assms(1) True] show ?thesis
      by (subst stepLoop.simps) simp
  qed
qed

lemma stepLoop_within:
  assumes "stepLoop r i hi n = Some r'" and "0 \<le> n" and "hi + n \<le> MaxInt" and "MinInt \<le> i"
  shows "r' \<subseteq> r \<union> {i..hi}"
proof (cases "n = 0")
  case True
  show ?thesis
  proof (cases "i \<le> hi")
    case le: True
    with assms(3,4) True have "wrap (i + n) = i" by (simp add: wrap_id)
    from stepLoop_stuck [OF this le] assms(1) show ?thesis by simp
  next
    case False
    with assms(1) show ?thesis by (subst (asm) stepLoop.simps) simp
  qed
next
  case False
  with assms(2) have pos: "0 < n" by simp
  have "i \<le> i + int k * n" for k using pos by simp
  with stepLoop_exact [OF pos assms(3,4), of r] assms(1) show ?thesis by auto
qed

section \<open>The regular expressions and \<open>Atoi\<close> on digit strings\<close>

lemma isDigit_cases: "isDigit c \<Longrightarrow> c \<noteq> CHR ''/'' \<and> c \<noteq> CHR ''-'' \<and> c \<noteq> CHR ''+'' \<and> c \<noteq> CHR ''*'' \<and> c \<noteq> CHR 0x0A"
  by (auto simp: isDigit_def)

lemma takeWhile_digits: "list_all isDigit ds \<Longrightarrow> takeWhile isDigit (ds @ rest) = ds @ takeWhile isDigit rest"
  by (induction ds) auto

lemma dropWhile_digits: "list_all isDigit ds \<Longrightarrow> dropWhile isDigit (ds @ rest) = dropWhile isDigit rest"
  by (induction ds) auto

lemma matchN_line_last:
  assumes "ds \<noteq> []" and "list_all isDigit ds"
  shows "matchN_line (x @ CHR ''/'' # ds) = Some (x, ds)"
proof (induction x)
  case Nil
  from assms(2) have n: "matchN_line ds = None"
    by (induction ds) (auto dest: isDigit_cases)
  from assms(2) takeWhile_digits [of ds "[]"] have tw: "takeWhile isDigit ds = ds" by simp
  from n assms(1) show ?case by (simp add: tw)
next
  case (Cons c x)
  then show ?case by simp
qed

lemma splitOn_no_sep: "sep \<notin> set s \<Longrightarrow> splitOn sep s = [s]"
  by (induction s) auto

lemma matchN_step:
  assumes "CHR 0x0A \<notin> set x" and "ds \<noteq> []" and "list_all isDigit ds"
  shows "matchN (x @ CHR ''/'' # ds) = Some (x, ds)"
proof -
  from assms(3) have "CHR 0x0A \<notin> set ds"
    by (auto simp: list_all_iff dest: isDigit_cases)
  with assms(1) have "splitOn (CHR 0x0A) (x @ CHR ''/'' # ds) = [x @ CHR ''/'' # ds]"
    by (intro splitOn_no_sep) simp
  with matchN_line_last [OF assms(2,3)] show ?thesis by (simp add: matchN_def)
qed

lemma matchRange_range:
  assumes "a \<noteq> []" and "list_all isDigit a" and "b \<noteq> []" and "list_all isDigit b"
  shows "matchRange (a @ CHR ''-'' # b) = Some (a, b)"
  using assms isDigit_cases [of "CHR ''-''"]
  by (auto simp: matchRange_def takeWhile_digits dropWhile_digits)

lemma digitsVal_nonneg_aux: "list_all isDigit ds \<Longrightarrow> 0 \<le> n \<Longrightarrow> 0 \<le> foldl (\<lambda>n c. n * 10 + digitVal c) n ds"
proof (induction ds arbitrary: n)
  case Nil
  then show ?case by simp
next
  case (Cons c ds)
  from Cons.prems have "0 \<le> digitVal c" by (auto simp: isDigit_def digitVal_def)
  with Cons.prems have "0 \<le> n * 10 + digitVal c" by simp
  with Cons show ?case by simp
qed

lemma Atoi_digits:
  assumes "ds \<noteq> []" and "list_all isDigit ds"
  shows "fst (Atoi ds) = min (digitsVal ds) MaxInt" and "0 \<le> fst (Atoi ds)"
proof -
  from assms have "isDigit (hd ds)" by (cases ds) auto
  then have "hd ds \<noteq> CHR ''-''" "hd ds \<noteq> CHR ''+''" by (auto dest: isDigit_cases)
  with assms show "fst (Atoi ds) = min (digitsVal ds) MaxInt"
    by (simp add: Atoi_def)
  moreover from assms(2) have "0 \<le> digitsVal ds"
    unfolding digitsVal_def by (intro digitsVal_nonneg_aux) simp_all
  ultimately show "0 \<le> fst (Atoi ds)" by (simp add: MaxInt_def)
qed

section \<open>The field parser on wildcards and step terms\<close>

text \<open>
  What \<open>parsePart\<close> does on \<open>*\<close>, on a step term with the base \<open>*\<close>, with
  an empty base and with a range as base, first as the loop it runs and then, for a
  positive step that does not overflow, as the set it returns.
\<close>

lemma parsePart_star:
  assumes "MinInt \<le> minB" and "maxB < MaxInt"
  shows "parsePart ''*'' minB maxB = Some (Inr {minB..maxB})"
  using incLoop_exact [OF assms, of "{}"] by (simp add: parsePart_def)

lemma parsePart_star_step:
  assumes "ds \<noteq> []" and "list_all isDigit ds"
  shows "parsePart (''*/'' @ ds) minB maxB =
         map_option Inr (stepLoop {} minB maxB (fst (Atoi ds)))"
  using matchN_step [of "''*''" ds] assms by (simp add: parsePart_def)

lemma parsePart_empty_base_step:
  assumes "ds \<noteq> []" and "list_all isDigit ds"
  shows "parsePart (''/'' @ ds) minB maxB =
         map_option Inr (stepLoop {} minB maxB (fst (Atoi ds)))"
  using matchN_step [of "[]" ds] assms by (simp add: parsePart_def)

lemma parsePart_range_step:
  assumes "a \<noteq> []" and "list_all isDigit a" and "b \<noteq> []" and "list_all isDigit b"
    and "ds \<noteq> []" and "list_all isDigit ds"
  shows "parsePart (a @ ''-'' @ b @ ''/'' @ ds) minB maxB =
         (if fst (Atoi a) < minB \<or> fst (Atoi b) > maxB then Some (Inl OutOfRange)
          else map_option Inr (stepLoop {} (fst (Atoi a)) (fst (Atoi b)) (fst (Atoi ds))))"
proof -
  from assms(2,4) have "CHR 0x0A \<notin> set (a @ CHR ''-'' # b)"
    by (auto simp: list_all_iff dest: isDigit_cases)
  from matchN_step [OF this assms(5,6)]
  have m: "matchN (a @ ''-'' @ b @ ''/'' @ ds) = Some (a @ CHR ''-'' # b, ds)" by simp
  from assms(1) have ne: "a @ ''-'' @ b @ ''/'' @ ds \<noteq> ''*''" "a @ CHR ''-'' # b \<noteq> ''*''"
    by (cases a; simp)+
  from assms(1) have ne2: "a @ CHR ''-'' # b \<noteq> []" by simp
  show ?thesis
    unfolding parsePart_def m using ne ne2 matchRange_range [OF assms(1-4)]
    by (simp add: Let_def)
qed


lemma parsePart_empty_base_same:
  assumes "ds \<noteq> []" and "list_all isDigit ds"
  shows "parsePart (''/'' @ ds) minB maxB = parsePart (''*/'' @ ds) minB maxB"
  by (simp only: parsePart_star_step [OF assms] parsePart_empty_base_step [OF assms])

lemma parsePart_star_step_exact:
  assumes "ds \<noteq> []" and "list_all isDigit ds"
    and "0 < fst (Atoi ds)" and "MinInt \<le> minB" and "maxB + fst (Atoi ds) \<le> MaxInt"
  shows "parsePart (''*/'' @ ds) minB maxB =
         Some (Inr {minB + int k * fst (Atoi ds) |k. minB + int k * fst (Atoi ds) \<le> maxB})"
proof -
  have "parsePart (''*/'' @ ds) minB maxB = map_option Inr (stepLoop {} minB maxB (fst (Atoi ds)))"
    by (rule parsePart_star_step [OF assms(1,2)])
  also from stepLoop_exact [OF assms(3,5,4), of "{}"]
  have "\<dots> = Some (Inr {minB + int k * fst (Atoi ds) |k. minB + int k * fst (Atoi ds) \<le> maxB})"
    by simp
  finally show ?thesis .
qed

lemma parsePart_range_step_exact:
  assumes "a \<noteq> []" and "list_all isDigit a" and "b \<noteq> []" and "list_all isDigit b"
    and "ds \<noteq> []" and "list_all isDigit ds"
    and "minB \<le> fst (Atoi a)" and "fst (Atoi b) \<le> maxB"
    and "0 < fst (Atoi ds)" and "fst (Atoi b) + fst (Atoi ds) \<le> MaxInt"
  shows "parsePart (a @ ''-'' @ b @ ''/'' @ ds) minB maxB =
         Some (Inr {fst (Atoi a) + int k * fst (Atoi ds) |k.
                      fst (Atoi a) + int k * fst (Atoi ds) \<le> fst (Atoi b)})"
proof -
  from Atoi_digits(2) [OF assms(1,2)] have "MinInt \<le> fst (Atoi a)"
    by (simp add: MinInt_def)
  from stepLoop_exact [OF assms(9,10) this, of "{}"] assms(7,8)
  have "(if fst (Atoi a) < minB \<or> fst (Atoi b) > maxB then Some (Inl OutOfRange)
          else map_option Inr (stepLoop {} (fst (Atoi a)) (fst (Atoi b)) (fst (Atoi ds)))) =
        Some (Inr {fst (Atoi a) + int k * fst (Atoi ds) |k.
                      fst (Atoi a) + int k * fst (Atoi ds) \<le> fst (Atoi b)})"
    by simp
  with parsePart_range_step [OF assms(1-6), of minB maxB] show ?thesis
    by (simp only:)
qed

text \<open>The examples of the specification.\<close>

lemma parsePart_examples:
  "parsePart ''*/2'' 0 59 = Some (Inr {0, 2, 4, 6, 8, 10, 12, 14, 16, 18, 20, 22, 24, 26, 28,
     30, 32, 34, 36, 38, 40, 42, 44, 46, 48, 50, 52, 54, 56, 58})"
  "parsePart ''1-59/2'' 0 59 = Some (Inr {1, 3, 5, 7, 9, 11, 13, 15, 17, 19, 21, 23, 25, 27, 29,
     31, 33, 35, 37, 39, 41, 43, 45, 47, 49, 51, 53, 55, 57, 59})"
  "parsePart ''10,15,19'' 0 23 = Some (Inr {10, 15, 19})"
  "parsePart ''70'' 0 59 = Some (Inl OutOfRange)"
  by code_simp+

text \<open>
  Within bounds inside the range of \<open>int\<close>, and with a step that is positive and does
  not carry the counter past the largest \<open>int\<close>, the field parser returns, and every
  member of a returned set lies within the bound.
\<close>

lemma parseTerms_within:
  assumes "parseTerms r xs minB maxB = Some (Inr r')" and "MinInt \<le> minB" and "maxB < MaxInt"
  shows "r' \<subseteq> r \<union> {minB..maxB}"
  using assms(1)
proof (induction xs arbitrary: r)
  case Nil
  then show ?case by simp
next
  case (Cons x xs)
  show ?case
  proof (cases "matchRange x")
    case (Some ab)
    obtain a b where ab: "ab = (a, b)" by (cases ab)
    from Cons.prems Some ab have ok: "minB \<le> fst (Atoi a)" "fst (Atoi b) \<le> maxB"
      by (auto simp: Let_def split: if_splits)
    with assms(2,3) have "incLoop r (fst (Atoi a)) (fst (Atoi b)) =
        Some (r \<union> {fst (Atoi a)..fst (Atoi b)})"
      by (intro incLoop_exact) simp_all
    with Cons.prems Some ab ok
    have "parseTerms (r \<union> {fst (Atoi a)..fst (Atoi b)}) xs minB maxB = Some (Inr r')"
      by (simp add: Let_def)
    from Cons.IH [OF this] ok show ?thesis by auto
  next
    case None
    with Cons.prems have ok: "minB \<le> fst (Atoi x)" "fst (Atoi x) \<le> maxB"
      and "parseTerms (insert (fst (Atoi x)) r) xs minB maxB = Some (Inr r')"
      by (auto split: if_splits)
    from Cons.IH [OF this(3)] ok show ?thesis by auto
  qed
qed

lemma matchN_line_digits:
  "matchN_line l = Some (g1, g2) \<Longrightarrow> g2 \<noteq> [] \<and> list_all isDigit g2"
proof (induction l arbitrary: g1)
  case Nil
  then show ?case by simp
next
  case (Cons c cs)
  then show ?case
    by (auto split: option.splits if_splits simp: list_all_iff dest: set_takeWhileD)
qed

lemma matchN_digits:
  assumes "matchN s = Some (m1, m2)"
  shows "m2 \<noteq> [] \<and> list_all isDigit m2"
proof -
  have "firstMatch ls = Some (m1, m2) \<Longrightarrow> m2 \<noteq> [] \<and> list_all isDigit m2" for ls
    by (induction ls) (auto split: option.splits dest: matchN_line_digits)
  with assms show ?thesis by (simp add: matchN_def)
qed

lemma parsePart_within:
  assumes res: "parsePart s minB maxB = Some (Inr r)"
    and lo: "MinInt \<le> minB" and hi: "maxB < MaxInt"
    and step: "\<And>m1 m2. matchN s = Some (m1, m2) \<Longrightarrow> maxB + fst (Atoi m2) \<le> MaxInt"
  shows "r \<subseteq> {minB..maxB}"
proof (cases "s = ''*''")
  case True
  with res parsePart_star [OF lo hi] show ?thesis by simp
next
  case star: False
  show ?thesis
  proof (cases "matchN s")
    case None
    with res star have "parseTerms {} (splitOn (CHR '','') s) minB maxB = Some (Inr r)"
      by (auto simp: parsePart_def split: option.splits sum.splits if_splits)
    from parseTerms_within [OF this lo hi] show ?thesis by simp
  next
    case (Some m)
    obtain m1 m2 where m: "m = (m1, m2)" by (cases m)
    from Some m have mN: "matchN s = Some (m1, m2)" by simp
    from matchN_digits [OF mN] have n0: "0 \<le> fst (Atoi m2)" by (simp add: Atoi_digits(2))
    from step [OF mN] have ov: "maxB + fst (Atoi m2) \<le> MaxInt" .
    show ?thesis
    proof (cases "m1 \<noteq> [] \<and> m1 \<noteq> ''*''")
      case False
      with res star mN have "stepLoop {} minB maxB (fst (Atoi m2)) = Some r"
        by (auto simp: parsePart_def)
      from stepLoop_within [OF this n0 ov lo] show ?thesis by simp
    next
      case True
      with res star mN obtain a b where
        ok: "minB \<le> fst (Atoi a)" "fst (Atoi b) \<le> maxB" and
        l: "stepLoop {} (fst (Atoi a)) (fst (Atoi b)) (fst (Atoi m2)) = Some r"
        by (auto simp: parsePart_def Let_def not_less split: option.splits if_splits)
      from ok ov lo have "fst (Atoi b) + fst (Atoi m2) \<le> MaxInt" "MinInt \<le> fst (Atoi a)"
        by simp_all
      from stepLoop_within [OF l n0 this] ok show ?thesis by auto
    qed
  qed
qed

lemma parseTerms_returns:
  assumes "MinInt \<le> minB" and "maxB < MaxInt"
  shows "\<exists>res. parseTerms r xs minB maxB = Some res"
proof (induction xs arbitrary: r)
  case Nil
  show ?case by simp
next
  case (Cons x xs)
  show ?case
  proof (cases "matchRange x")
    case None
    with Cons.IH show ?thesis by simp
  next
    case (Some ab)
    obtain a b where ab: "ab = (a, b)" by (cases ab)
    show ?thesis
    proof (cases "fst (Atoi a) < minB \<or> fst (Atoi b) > maxB")
      case True
      with Some ab show ?thesis by (simp add: Let_def)
    next
      case False
      with assms have "incLoop r (fst (Atoi a)) (fst (Atoi b)) =
          Some (r \<union> {fst (Atoi a)..fst (Atoi b)})"
        by (intro incLoop_exact) simp_all
      with Some ab False Cons.IH show ?thesis by (simp add: Let_def)
    qed
  qed
qed

lemma parsePart_returns:
  assumes lo: "MinInt \<le> minB" and hi: "maxB < MaxInt"
    and step: "\<And>m1 m2. matchN s = Some (m1, m2) \<Longrightarrow>
                 0 < fst (Atoi m2) \<and> maxB + fst (Atoi m2) \<le> MaxInt"
  shows "\<exists>res. parsePart s minB maxB = Some res"
proof (cases "s = ''*''")
  case True
  with parsePart_star [OF lo hi] show ?thesis by simp
next
  case star: False
  show ?thesis
  proof (cases "matchN s")
    case None
    from parseTerms_returns [OF lo hi, of "{}" "splitOn (CHR '','') s"]
    obtain res where "parseTerms {} (splitOn (CHR '','') s) minB maxB = Some res" by blast
    with None star show ?thesis
      by (cases res) (simp_all add: parsePart_def)
  next
    case (Some m)
    obtain m1 m2 where m: "m = (m1, m2)" by (cases m)
    from Some m have mN: "matchN s = Some (m1, m2)" by simp
    from step [OF mN] have pos: "0 < fst (Atoi m2)" and ov: "maxB + fst (Atoi m2) \<le> MaxInt"
      by simp_all
    show ?thesis
    proof (cases "m1 \<noteq> [] \<and> m1 \<noteq> ''*''")
      case False
      with star mN stepLoop_exact [OF pos ov lo, of "{}"] show ?thesis
        by (auto simp: parsePart_def)
    next
      case base: True
      show ?thesis
      proof (cases "matchRange m1")
        case None
        with star mN base show ?thesis by (simp add: parsePart_def)
      next
        case (Some ab)
        obtain a b where ab: "ab = (a, b)" by (cases ab)
        show ?thesis
        proof (cases "fst (Atoi a) < minB \<or> fst (Atoi b) > maxB")
          case True
          with star mN base Some ab show ?thesis by (simp add: parsePart_def Let_def)
        next
          case False
          with ov lo have "fst (Atoi b) + fst (Atoi m2) \<le> MaxInt" "MinInt \<le> fst (Atoi a)"
            by simp_all
          from stepLoop_exact [OF pos this, of "{}"] star mN base Some ab False
          show ?thesis by (simp add: parsePart_def Let_def)
        qed
      qed
    qed
  qed
qed

section \<open>Step terms outside these conditions\<close>

lemma Atoi_zero: "Atoi ''0'' = (0, True)"
  by code_simp

lemma matchN_star_zero: "matchN ''*/0'' = Some (''*'', ''0'')"
  by code_simp

lemma matchN_slash_zero: "matchN ''/0'' = Some ('''', ''0'')"
  by code_simp

text \<open>
  C4. The claim is that \<open>parsePart\<close> returns a set or an error for every input, also
  for \<open>*/0\<close>. On \<open>*/0\<close> with the bound of the seconds the step is 0, the loop
  \<open>for i := 0; i <= 59; i += 0\<close> never ends, and \<open>parsePart\<close> does not return.
\<close>

theorem parsePart_star_zero_step: "parsePart ''*/0'' 0 59 = None"
proof -
  have "stepLoop {} 0 59 0 = None"
    by (rule stepLoop_stuck) (simp_all add: wrap_def)
  then show ?thesis
    by (simp add: parsePart_def matchN_star_zero Atoi_zero)
qed

text \<open>
  C9. A step term with an empty base takes the branch of \<open>*\<close>. The claim is that it
  then produces the set \<open>{min, min + n, \<dots>}\<close> for every step \<open>n\<close>; for the step 0
  the loop does not end, as for \<open>*/0\<close>.
\<close>

theorem parsePart_slash_zero_step: "parsePart ''/0'' 0 59 = None"
proof -
  have "stepLoop {} 0 59 0 = None"
    by (rule stepLoop_stuck) (simp_all add: wrap_def)
  then show ?thesis
    by (simp add: parsePart_def matchN_slash_zero Atoi_zero)
qed

text \<open>
  C3. The claim is that a set returned by \<open>parsePart\<close> is never empty. The step form
  returns its set without the test for emptiness that the list form makes: the inverted
  range \<open>5-3\<close> with a step gives the empty set and no error, while the list form
  rejects \<open>5-3\<close>.
\<close>

theorem parsePart_step_empty: "parsePart ''5-3/1'' 0 59 = Some (Inr {})"
  by code_simp

lemma parsePart_list_empty: "parsePart ''5-3'' 0 59 = Some (Inl UnableToParse)"
  by code_simp

text \<open>
  C5. The claim is that a step term gives exactly the values \<open>low + k * step\<close> up to the
  high bound. With the step 9223372036854775807 over the days of the month that set is
  \<open>{1}\<close>, but the counter wraps around: 1 plus the step is the least \<open>int\<close>, the
  next value is -1, and both are put into the set before the loop ends.
\<close>

theorem parsePart_step_not_progression:
  "parsePart ''*/9223372036854775807'' 1 31 = Some (Inr {1, - 9223372036854775808, - 1})"
  by code_simp

text \<open>
  C6. The claim is that every member of a returned set lies within the bound. The same
  wrap-around, here with a range as the base and the bound of the months, puts the least
  \<open>int\<close> and -1 into the set.
\<close>

theorem parsePart_step_outside_bound:
  "parsePart ''1-12/9223372036854775807'' 1 12 = Some (Inr {1, - 9223372036854775808, - 1})"
  by code_simp

section \<open>The assembler and the disjunction rule\<close>

text \<open>A schedule that parses has six parts, each accepted by the field parser.\<close>

lemma parseSchedule_success:
  assumes "parseSchedule s = Some (j, None)"
  shows "\<exists>r0 r1 r2 r3 r4 r5.
           length (splitOn (CHR 0x20) (replaceSpaces s)) = 6 \<and>
           parsePart (splitOn (CHR 0x20) (replaceSpaces s) ! 0) 0 59 = Some (Inr r0) \<and>
           parsePart (splitOn (CHR 0x20) (replaceSpaces s) ! 1) 0 59 = Some (Inr r1) \<and>
           parsePart (splitOn (CHR 0x20) (replaceSpaces s) ! 2) 0 23 = Some (Inr r2) \<and>
           parsePart (splitOn (CHR 0x20) (replaceSpaces s) ! 3) 1 31 = Some (Inr r3) \<and>
           parsePart (splitOn (CHR 0x20) (replaceSpaces s) ! 4) 1 12 = Some (Inr r4) \<and>
           parsePart (splitOn (CHR 0x20) (replaceSpaces s) ! 5) 0 6 = Some (Inr r5) \<and>
           j = disjunctionRule (emptyJob\<lparr>j_second := r0, j_min := r1, j_hour := r2, j_day := r3,
                     j_month := r4, j_dayOfWeek := r5\<rparr>)"
  using assms unfolding parseSchedule_def Let_def
  by (simp split: if_splits option.splits sum.splits)

text \<open>
  C2. For every schedule expression whose six parts are accepted by the field parser,
  \<open>parseSchedule\<close> returns the job and no error, and the job carries the sets of the
  field parser with the disjunction rule applied: when the day set has fewer than 31
  members and the day-of-week set has 7, the day-of-week set is empty; otherwise, when the
  day-of-week set has fewer than 7 members and the day set has 31, the day set is empty;
  otherwise both sets are those of the field parser. The three schedules below reach the
  three cases.
\<close>

theorem parseSchedule_disjunction:
  assumes "length (splitOn (CHR 0x20) (replaceSpaces s)) = 6"
    and "parsePart (splitOn (CHR 0x20) (replaceSpaces s) ! 0) 0 59 = Some (Inr r0)"
    and "parsePart (splitOn (CHR 0x20) (replaceSpaces s) ! 1) 0 59 = Some (Inr r1)"
    and "parsePart (splitOn (CHR 0x20) (replaceSpaces s) ! 2) 0 23 = Some (Inr r2)"
    and "parsePart (splitOn (CHR 0x20) (replaceSpaces s) ! 3) 1 31 = Some (Inr d)"
    and "parsePart (splitOn (CHR 0x20) (replaceSpaces s) ! 4) 1 12 = Some (Inr r4)"
    and "parsePart (splitOn (CHR 0x20) (replaceSpaces s) ! 5) 0 6 = Some (Inr w)"
  shows "parseSchedule s =
     Some (\<lparr>j_second = r0, j_min = r1, j_hour = r2,
             j_day = (if card d < 31 \<and> card w = 7 then d
                      else if card w < 7 \<and> card d = 31 then {} else d),
             j_month = r4,
             j_dayOfWeek = (if card d < 31 \<and> card w = 7 then {} else w),
             j_fn = Nil, j_args = []\<rparr>, None)"
  using assms by (simp add: parseSchedule_def disjunctionRule_def emptyJob_def)

theorem parseSchedule_disjunction_witness:
  "parseSchedule ''0 0 12 1 * *'' =
     Some (\<lparr>j_second = {0}, j_min = {0}, j_hour = {12}, j_day = {1}, j_month = {1..12},
             j_dayOfWeek = {}, j_fn = Nil, j_args = []\<rparr>, None) \<and>
   parseSchedule ''0 0 0 * * 1,2'' =
     Some (\<lparr>j_second = {0}, j_min = {0}, j_hour = {0}, j_day = {}, j_month = {1..12},
             j_dayOfWeek = {1, 2}, j_fn = Nil, j_args = []\<rparr>, None) \<and>
   parseSchedule ''0 0 0 1 1 1'' =
     Some (\<lparr>j_second = {0}, j_min = {0}, j_hour = {0}, j_day = {1}, j_month = {1},
             j_dayOfWeek = {1}, j_fn = Nil, j_args = []\<rparr>, None)"
proof -
  have p1: "splitOn (CHR 0x20) (replaceSpaces ''0 0 12 1 * *'') =
      [''0'', ''0'', ''12'', ''1'', ''*'', ''*'']"
    and p2: "splitOn (CHR 0x20) (replaceSpaces ''0 0 0 * * 1,2'') =
      [''0'', ''0'', ''0'', ''*'', ''*'', ''1,2'']"
    and p3: "splitOn (CHR 0x20) (replaceSpaces ''0 0 0 1 1 1'') =
      [''0'', ''0'', ''0'', ''1'', ''1'', ''1'']"
    by code_simp+
  have z59: "parsePart ''0'' 0 59 = Some (Inr {0})"
    and z23: "parsePart ''0'' 0 23 = Some (Inr {0})"
    and h12: "parsePart ''12'' 0 23 = Some (Inr {12})"
    and d1: "parsePart ''1'' 1 31 = Some (Inr {1})"
    and m1: "parsePart ''1'' 1 12 = Some (Inr {1})"
    and w1: "parsePart ''1'' 0 6 = Some (Inr {1})"
    and w12: "parsePart ''1,2'' 0 6 = Some (Inr {1, 2})"
    by code_simp+
  have dAll: "parsePart ''*'' 1 31 = Some (Inr {1..31})"
    and mAll: "parsePart ''*'' 1 12 = Some (Inr {1..12})"
    and wAll: "parsePart ''*'' 0 6 = Some (Inr {0..6})"
    by (rule parsePart_star; simp add: MinInt_def MaxInt_def)+
  have c1: "parseSchedule ''0 0 12 1 * *'' =
     Some (\<lparr>j_second = {0}, j_min = {0}, j_hour = {12}, j_day = {1}, j_month = {1..12},
             j_dayOfWeek = {}, j_fn = Nil, j_args = []\<rparr>, None)"
    using parseSchedule_disjunction [of "''0 0 12 1 * *''" "{0}" "{0}" "{12}" "{1}" "{1..12}" "{0..6}"]
    by (simp add: p1 z59 h12 d1 mAll wAll)
  have c2: "parseSchedule ''0 0 0 * * 1,2'' =
     Some (\<lparr>j_second = {0}, j_min = {0}, j_hour = {0}, j_day = {}, j_month = {1..12},
             j_dayOfWeek = {1, 2}, j_fn = Nil, j_args = []\<rparr>, None)"
    using parseSchedule_disjunction [of "''0 0 0 * * 1,2''" "{0}" "{0}" "{0}" "{1..31}" "{1..12}" "{1, 2}"]
    by (simp add: p2 z59 z23 dAll mAll w12)
  have c3: "parseSchedule ''0 0 0 1 1 1'' =
     Some (\<lparr>j_second = {0}, j_min = {0}, j_hour = {0}, j_day = {1}, j_month = {1},
             j_dayOfWeek = {1}, j_fn = Nil, j_args = []\<rparr>, None)"
    using parseSchedule_disjunction [of "''0 0 0 1 1 1''" "{0}" "{0}" "{0}" "{1}" "{1}" "{1}"]
    by (simp add: p3 z59 z23 d1 m1 w1)
  from c1 c2 c3 show ?thesis by simp
qed

section \<open>White space around the expression\<close>

lemma isSpace_space: "isSpace (CHR 0x20)"
  by (simp add: isSpace_def)

lemma collapse_True_spaces: "list_all isSpace ws \<Longrightarrow> collapse True (ws @ t) = collapse True t"
  by (induction ws) auto

lemma collapse_False_spaces:
  "ws \<noteq> [] \<Longrightarrow> list_all isSpace ws \<Longrightarrow> collapse False (ws @ t) = CHR 0x20 # collapse True t"
  by (cases ws) (auto simp: collapse_True_spaces)

lemma collapse_True_False: "t \<noteq> [] \<Longrightarrow> \<not> isSpace (hd t) \<Longrightarrow> collapse True t = collapse False t"
  by (cases t) auto

lemma collapse_append_spaces:
  "body \<noteq> [] \<Longrightarrow> \<not> isSpace (last body) \<Longrightarrow> ws \<noteq> [] \<Longrightarrow> list_all isSpace ws \<Longrightarrow>
   collapse b (body @ ws) = collapse b body @ [CHR 0x20]"
proof (induction body arbitrary: b)
  case Nil
  then show ?case by simp
next
  case (Cons c body)
  show ?case
  proof (cases "body = []")
    case True
    with Cons.prems collapse_False_spaces [of ws "[]"] show ?thesis by simp
  next
    case False
    with Cons.prems have "collapse b' (body @ ws) = collapse b' body @ [CHR 0x20]" for b'
      by (intro Cons.IH) auto
    then show ?thesis by simp
  qed
qed

lemma splitOn_not_Nil: "splitOn sep xs \<noteq> []"
  by (induction xs) (auto split: list.splits)

lemma splitOn_snoc: "splitOn sep (xs @ [sep]) = splitOn sep xs @ [[]]"
  by (induction xs) (auto split: list.splits simp: splitOn_not_Nil)

lemma length_splitOn: "length (splitOn sep xs) = Suc (length (filter (\<lambda>c. c = sep) xs))"
  by (induction xs) (auto split: list.splits)

lemma collapse_ends_space:
  "body \<noteq> [] \<Longrightarrow> isSpace (last body) \<Longrightarrow>
   (b \<and> collapse b body = []) \<or> (collapse b body \<noteq> [] \<and> last (collapse b body) = CHR 0x20)"
proof (induction body arbitrary: b)
  case Nil
  then show ?case by simp
next
  case (Cons c body)
  show ?case
  proof (cases "body = []")
    case True
    with Cons.prems show ?thesis by simp
  next
    case False
    with Cons.prems have sp: "isSpace (last body)" by simp
    note IH = Cons.IH [OF False sp]
    show ?thesis
    proof (cases "isSpace c")
      case True
      from IH [of True] True show ?thesis by (cases b) auto
    next
      case False
      from IH [of False] False show ?thesis by simp
    qed
  qed
qed

lemma last_splitOn_Nil:
  assumes "xs \<noteq> []" and "last xs = sep"
  shows "last (splitOn sep xs) = []"
  using assms
proof (induction xs)
  case Nil
  then show ?case by simp
next
  case (Cons c xs)
  show ?case
  proof (cases "xs = []")
    case True
    with Cons.prems show ?thesis by simp
  next
    case False
    with Cons.prems have l: "last xs = sep" by simp
    with False Cons.IH have IH: "last (splitOn sep xs) = []" by simp
    from False l have "sep \<in> set xs" using last_in_set by metis
    then have "filter (\<lambda>c. c = sep) xs \<noteq> []" by (auto simp: filter_empty_conv)
    then have "length (splitOn sep xs) \<ge> 2"
      by (cases "filter (\<lambda>c. c = sep) xs") (simp_all add: length_splitOn)
    then obtain p q ps where "splitOn sep xs = p # q # ps"
      by (cases "splitOn sep xs"; cases "tl (splitOn sep xs)") auto
    with IH show ?thesis by auto
  qed
qed

lemma parsePart_Nil: "parsePart [] minB maxB = Some (Inl UnableToParse)"
  by (simp add: parsePart_def matchN_def matchRange_def Atoi_def)

text \<open>
  C10. A schedule expression that parses, with white space put before it or after it (or
  both), is rejected with the error for the number of components, and the job returned is
  the zero value.
\<close>

theorem parseSchedule_outer_space:
  assumes ok: "parseSchedule body = Some (j, None)"
    and lead: "list_all isSpace lead" and trail: "list_all isSpace trail"
    and ne: "lead \<noteq> [] \<or> trail \<noteq> []"
  shows "parseSchedule (lead @ body @ trail) = Some (emptyJob, Some ComponentCount)"
proof -
  let ?sp = "CHR 0x20"
  let ?P = "splitOn ?sp (replaceSpaces body)"
  from parseSchedule_success [OF ok] obtain r0 r5 where
    len: "length ?P = 6" and
    p0: "parsePart (?P ! 0) 0 59 = Some (Inr r0)" and
    p5: "parsePart (?P ! 5) 0 6 = Some (Inr r5)"
    by blast
  from p0 have P0: "?P ! 0 \<noteq> []" by (auto simp: parsePart_Nil)
  from p5 have P5: "?P ! 5 \<noteq> []" by (auto simp: parsePart_Nil)
  from len have body_ne: "body \<noteq> []" by (auto simp: replaceSpaces_def)
  have hd_ns: "\<not> isSpace (hd body)"
  proof
    assume "isSpace (hd body)"
    with body_ne have "?P ! 0 = []" by (cases body) (simp_all add: replaceSpaces_def)
    with P0 show False by simp
  qed
  have last_ns: "\<not> isSpace (last body)"
  proof
    assume "isSpace (last body)"
    from collapse_ends_space [OF body_ne this, of False]
    have "collapse False body \<noteq> []" and "last (collapse False body) = ?sp" by simp_all
    then have "last ?P = []" by (simp add: replaceSpaces_def last_splitOn_Nil)
    moreover from len have "last ?P = ?P ! 5" by (simp add: last_conv_nth splitOn_not_Nil)
    ultimately show False using P5 by simp
  qed
  have mid: "collapse False (body @ trail) = collapse False body @ (if trail = [] then [] else [?sp])"
    using collapse_append_spaces [OF body_ne last_ns _ trail, of False] by simp
  have full: "collapse False (lead @ body @ trail) =
      (if lead = [] then [] else [?sp]) @ collapse False (body @ trail)"
  proof (cases "lead = []")
    case True
    then show ?thesis by simp
  next
    case False
    from body_ne hd_ns have "collapse True (body @ trail) = collapse False (body @ trail)"
      by (intro collapse_True_False) auto
    with False lead show ?thesis by (simp add: collapse_False_spaces)
  qed
  have "length (splitOn ?sp (replaceSpaces (lead @ body @ trail))) =
      (if lead = [] then 0 else 1) + length ?P + (if trail = [] then 0 else 1)"
    unfolding replaceSpaces_def full mid by (simp add: length_splitOn)
  with len ne have "length (splitOn ?sp (replaceSpaces (lead @ body @ trail))) \<noteq> 6"
    by (auto split: if_splits)
  then show ?thesis by (simp add: parseSchedule_def)
qed

theorem parseSchedule_outer_space_witness:
  "parseSchedule ''0 0 12 1 1 1'' =
     Some (\<lparr>j_second = {0}, j_min = {0}, j_hour = {12}, j_day = {1}, j_month = {1},
             j_dayOfWeek = {1}, j_fn = Nil, j_args = []\<rparr>, None) \<and>
   parseSchedule ('' '' @ ''0 0 12 1 1 1'' @ [CHR 0x0A]) = Some (emptyJob, Some ComponentCount)"
proof -
  have h: "parseSchedule ''0 0 12 1 1 1'' =
     Some (\<lparr>j_second = {0}, j_min = {0}, j_hour = {12}, j_day = {1}, j_month = {1},
             j_dayOfWeek = {1}, j_fn = Nil, j_args = []\<rparr>, None)"
    by code_simp
  have l: "list_all isSpace '' ''" and t: "list_all isSpace [CHR 0x0A]"
    by (simp_all add: isSpace_def)
  show ?thesis using h parseSchedule_outer_space [OF h l t] by simp
qed

section \<open>Registration\<close>

text \<open>
  C7. When \<open>AddJob\<close> returns an error, and also when it panics, the crontab is the one
  before the call. When it returns nil, the jobs are those before the call followed by one
  job: the parsed schedule with the callable and the arguments. So a job is appended if
  and only if \<open>AddJob\<close> returns no error.
\<close>

theorem AddJob_atomic:
  assumes "AddJob impl c schedule fn args = Some (c', out)"
  shows "(out = Returns None \<and>
          (\<exists>j. parseSchedule schedule = Some (j, None) \<and>
             jobs c' = jobs c @ [j\<lparr>j_fn := fn, j_args := args\<rparr>])) \<or>
         (out \<noteq> Returns None \<and> c' = c)"
  using assms
  by (auto simp: AddJob_def
      split: option.splits prod.splits goval.splits outcome.splits if_splits)

theorem AddJob_atomic_witness:
  "AddJob (\<lambda>t2 t1. False) \<lparr>jobs = []\<rparr> ''0 0 12 1 1 1'' (Val (FuncType [OtherType ''int''])) [Nil] =
     Some (\<lparr>jobs = []\<rparr>, Returns (Some (ParamType 0))) \<and>
   AddJob (\<lambda>t2 t1. False) \<lparr>jobs = []\<rparr> ''0 0 12 1 1 1'' (Val (FuncType [])) [] =
     Some (\<lparr>jobs = [\<lparr>j_second = {0}, j_min = {0}, j_hour = {12}, j_day = {1}, j_month = {1},
             j_dayOfWeek = {1}, j_fn = Val (FuncType []), j_args = []\<rparr>]\<rparr>, Returns None)"
proof -
  have bad: "AddJob (\<lambda>t2 t1. False) \<lparr>jobs = []\<rparr> ''0 0 12 1 1 1''
      (Val (FuncType [OtherType ''int''])) [Nil] =
     Some (\<lparr>jobs = []\<rparr>, Returns (Some (ParamType 0)))"
    by code_simp
  have good: "AddJob (\<lambda>t2 t1. False) \<lparr>jobs = []\<rparr> ''0 0 12 1 1 1'' (Val (FuncType [])) [] =
     Some (\<lparr>jobs = [\<lparr>j_second = {0}, j_min = {0}, j_hour = {12}, j_day = {1}, j_month = {1},
             j_dayOfWeek = {1}, j_fn = Val (FuncType []), j_args = []\<rparr>]\<rparr>, Returns None)"
    by code_simp
  from AddJob_atomic [OF bad] AddJob_atomic [OF good] bad good show ?thesis
    by simp
qed

end
